theory Spec2Isabelle
  imports Complex_Main "HOL-Library.AList"
begin

section \<open>Numbers: Python floats\<close>

text \<open>
  Every indicator value of \<^verbatim>\<open>backfill_real_history.py\<close> is a Python \<^verbatim>\<open>float\<close>. A float
  is modelled as a finite real or one of the three special values that \<^verbatim>\<open>float()\<close> and
  float arithmetic can produce. Finite arithmetic is exact: the rounding of a result to
  53 bits, the overflow of a finite result to infinity and the sign of zero are not
  modelled. The special values follow IEEE 754 as Python implements it: every ordering
  comparison with \<open>NaN\<close> is false, and \<open>inf - inf\<close> and \<open>0 * inf\<close> are \<open>NaN\<close>.
\<close>

datatype pyfloat = Fin real | PInf | NInf | NaN

text \<open>\<^verbatim>\<open>a < b\<close> on floats.\<close>

fun pf_less :: "pyfloat \<Rightarrow> pyfloat \<Rightarrow> bool" where
  "pf_less NaN _ = False"
| "pf_less _ NaN = False"
| "pf_less (Fin x) (Fin y) = (x < y)"
| "pf_less (Fin _) PInf = True"
| "pf_less (Fin _) NInf = False"
| "pf_less NInf (Fin _) = True"
| "pf_less NInf PInf = True"
| "pf_less NInf NInf = False"
| "pf_less PInf _ = False"

text \<open>\<^verbatim>\<open>a > b\<close> on floats.\<close>

definition pf_greater :: "pyfloat \<Rightarrow> pyfloat \<Rightarrow> bool" where
  "pf_greater a b = pf_less b a"

text \<open>\<^verbatim>\<open>-a\<close> and \<^verbatim>\<open>abs(a)\<close>.\<close>

fun pf_neg :: "pyfloat \<Rightarrow> pyfloat" where
  "pf_neg (Fin x) = Fin (- x)"
| "pf_neg PInf = NInf"
| "pf_neg NInf = PInf"
| "pf_neg NaN = NaN"

fun pf_abs :: "pyfloat \<Rightarrow> pyfloat" where
  "pf_abs (Fin x) = Fin \<bar>x\<bar>"
| "pf_abs PInf = PInf"
| "pf_abs NInf = PInf"
| "pf_abs NaN = NaN"

text \<open>\<^verbatim>\<open>a + b\<close> and \<^verbatim>\<open>a - b\<close>.\<close>

fun pf_add :: "pyfloat \<Rightarrow> pyfloat \<Rightarrow> pyfloat" where
  "pf_add NaN _ = NaN"
| "pf_add _ NaN = NaN"
| "pf_add (Fin x) (Fin y) = Fin (x + y)"
| "pf_add (Fin _) PInf = PInf"
| "pf_add (Fin _) NInf = NInf"
| "pf_add PInf NInf = NaN"
| "pf_add PInf _ = PInf"
| "pf_add NInf PInf = NaN"
| "pf_add NInf _ = NInf"

definition pf_sub :: "pyfloat \<Rightarrow> pyfloat \<Rightarrow> pyfloat" where
  "pf_sub a b = pf_add a (pf_neg b)"

text \<open>\<^verbatim>\<open>a * b\<close>: an infinity times zero is \<open>NaN\<close>, otherwise the signs multiply.\<close>

definition inf_signed :: "real \<Rightarrow> pyfloat" where
  "inf_signed s = (if s = 0 then NaN else if 0 < s then PInf else NInf)"

fun pf_mul :: "pyfloat \<Rightarrow> pyfloat \<Rightarrow> pyfloat" where
  "pf_mul NaN _ = NaN"
| "pf_mul _ NaN = NaN"
| "pf_mul (Fin x) (Fin y) = Fin (x * y)"
| "pf_mul (Fin x) PInf = inf_signed x"
| "pf_mul (Fin x) NInf = inf_signed (- x)"
| "pf_mul PInf (Fin y) = inf_signed y"
| "pf_mul NInf (Fin y) = inf_signed (- y)"
| "pf_mul PInf PInf = PInf"
| "pf_mul PInf NInf = NInf"
| "pf_mul NInf PInf = NInf"
| "pf_mul NInf NInf = PInf"

text \<open>
  \<^verbatim>\<open>a / c\<close> for a finite non-zero literal \<open>c\<close>. \<^verbatim>\<open>compute_risk\<close> divides by the literals
  \<^verbatim>\<open>10000.0\<close> and \<^verbatim>\<open>4.0\<close> only, so the \<^verbatim>\<open>ZeroDivisionError\<close> of a zero divisor
  cannot arise there and the divisor is a real.
\<close>

fun pf_div_lit :: "pyfloat \<Rightarrow> real \<Rightarrow> pyfloat" where
  "pf_div_lit (Fin x) c = Fin (x / c)"
| "pf_div_lit PInf c = inf_signed c"
| "pf_div_lit NInf c = inf_signed (- c)"
| "pf_div_lit NaN c = NaN"

text \<open>
  The builtins \<^verbatim>\<open>min(a, b)\<close> and \<^verbatim>\<open>max(a, b)\<close> keep their first argument unless the
  second is strictly smaller (larger); with a \<open>NaN\<close> second argument the comparison is
  false and the first argument is returned.
\<close>

definition py_min :: "pyfloat \<Rightarrow> pyfloat \<Rightarrow> pyfloat" where
  "py_min a b = (if pf_less b a then b else a)"

definition py_max :: "pyfloat \<Rightarrow> pyfloat \<Rightarrow> pyfloat" where
  "py_max a b = (if pf_greater b a then b else a)"

text \<open>
  \<^verbatim>\<open>round(x, 1)\<close>: the nearest multiple of one tenth, a tie going to the even multiple;
  an infinity or \<open>NaN\<close> is returned as it is.
\<close>

definition round_half_even :: "real \<Rightarrow> int" where
  "round_half_even r =
     (let f = \<lfloor>r\<rfloor>; d = r - of_int f
      in if d < 1 / 2 then f else if 1 / 2 < d then f + 1 else if even f then f else f + 1)"

fun py_round1 :: "pyfloat \<Rightarrow> pyfloat" where
  "py_round1 (Fin x) = Fin (of_int (round_half_even (x * 10)) / 10)"
| "py_round1 PInf = PInf"
| "py_round1 NInf = NInf"
| "py_round1 NaN = NaN"

section \<open>The risk scorer\<close>

text \<open>
  \<^verbatim>\<open>compute_risk\<close> adds one term per indicator to a running score. Each block of the
  source that updates \<^verbatim>\<open>risk\<close> is one function from the score before the block to the
  score after it; an absent input (\<^verbatim>\<open>None\<close>) leaves the score as it is. The arguments
  are floats already (the cursors hold what \<^verbatim>\<open>float()\<close> returned), so the conversions
  \<^verbatim>\<open>float(x)\<close> inside the scorer are the identity and the \<^verbatim>\<open>except\<close> branch around the
  spread is not reachable.
\<close>

definition yield_curve :: "pyfloat option \<Rightarrow> pyfloat option \<Rightarrow> pyfloat option" where
  "yield_curve yield_10y yield_2y =
     (case yield_10y of
        None \<Rightarrow> None
      | Some a \<Rightarrow> (case yield_2y of None \<Rightarrow> None | Some b \<Rightarrow> Some (pf_sub a b)))"

definition yield_curve_term :: "pyfloat option \<Rightarrow> pyfloat \<Rightarrow> pyfloat" where
  "yield_curve_term yc risk =
     (case yc of
        None \<Rightarrow> risk
      | Some y \<Rightarrow>
          if pf_less y (Fin (- 0.5)) then pf_add risk (Fin 25)
          else if pf_less y (Fin 0) then pf_add risk (pf_mul (pf_abs y) (Fin 30))
          else if pf_greater y (Fin 0.5) then pf_sub risk (Fin 5)
          else risk)"

definition unemployment_term :: "pyfloat option \<Rightarrow> pyfloat \<Rightarrow> pyfloat" where
  "unemployment_term unemployment risk =
     (case unemployment of
        None \<Rightarrow> risk
      | Some u_rate \<Rightarrow>
          if pf_greater u_rate (Fin 5.0) then pf_add risk (pf_mul (pf_sub u_rate (Fin 5.0)) (Fin 8))
          else if pf_less u_rate (Fin 4.0) then pf_sub risk (Fin 3)
          else risk)"

definition initial_claims_term :: "pyfloat option \<Rightarrow> pyfloat \<Rightarrow> pyfloat" where
  "initial_claims_term initial_claims risk =
     (case initial_claims of
        None \<Rightarrow> risk
      | Some claims \<Rightarrow>
          if pf_greater claims (Fin 300000)
          then pf_add risk (pf_div_lit (pf_sub claims (Fin 300000)) 10000.0)
          else risk)"

definition gdp_term :: "pyfloat option \<Rightarrow> pyfloat \<Rightarrow> pyfloat" where
  "gdp_term gdp_growth risk =
     (case gdp_growth of
        None \<Rightarrow> risk
      | Some gdp \<Rightarrow>
          if pf_less gdp (Fin 0) then pf_add risk (Fin 15)
          else if pf_less gdp (Fin 2.0) then pf_add risk (pf_mul (pf_sub (Fin 2.0) gdp) (Fin 5))
          else risk)"

definition consumer_sentiment_term :: "pyfloat option \<Rightarrow> pyfloat \<Rightarrow> pyfloat" where
  "consumer_sentiment_term consumer_sentiment risk =
     (case consumer_sentiment of
        None \<Rightarrow> risk
      | Some cs \<Rightarrow>
          if pf_less cs (Fin 70) then pf_add risk (Fin 10)
          else if pf_less cs (Fin 90) then pf_add risk (pf_div_lit (pf_sub (Fin 90) cs) 4.0)
          else risk)"

definition credit_spread_term :: "pyfloat option \<Rightarrow> pyfloat \<Rightarrow> pyfloat" where
  "credit_spread_term credit_spread risk =
     (case credit_spread of
        None \<Rightarrow> risk
      | Some spread \<Rightarrow>
          if pf_greater spread (Fin 2.5)
          then pf_add risk (pf_mul (pf_sub spread (Fin 2.5)) (Fin 8))
          else risk)"

text \<open>The clamp of line 105: \<^verbatim>\<open>max(5.0, min(95.0, risk))\<close>.\<close>

definition clamp_risk :: "pyfloat \<Rightarrow> pyfloat" where
  "clamp_risk risk = py_max (Fin 5.0) (py_min (Fin 95.0) risk)"

text \<open>
  \<^verbatim>\<open>compute_risk\<close> returns the pair of the rounded, clamped score and the spread.
  \<^verbatim>\<open>industrial_prod\<close> and \<^verbatim>\<open>housing_starts\<close> are parameters that the body never reads.
\<close>

definition compute_risk ::
  "pyfloat option \<Rightarrow> pyfloat option \<Rightarrow> pyfloat option \<Rightarrow> pyfloat option \<Rightarrow> pyfloat option \<Rightarrow>
   pyfloat option \<Rightarrow> pyfloat option \<Rightarrow> pyfloat option \<Rightarrow> pyfloat option \<Rightarrow>
   pyfloat \<times> pyfloat option" where
  "compute_risk yield_10y yield_2y unemployment initial_claims gdp_growth industrial_prod
     consumer_sentiment credit_spread housing_starts =
     (let risk = Fin 15.0;
          yc = yield_curve yield_10y yield_2y;
          risk = yield_curve_term yc risk;
          risk = unemployment_term unemployment risk;
          risk = initial_claims_term initial_claims risk;
          risk = gdp_term gdp_growth risk;
          risk = consumer_sentiment_term consumer_sentiment risk;
          risk = credit_spread_term credit_spread risk;
          risk = clamp_risk risk
      in (py_round1 risk, yc))"

section \<open>Dates and errors\<close>

text \<open>
  A \<^verbatim>\<open>datetime.date\<close> is modelled by its proleptic Gregorian ordinal
  (\<^verbatim>\<open>date.toordinal()\<close>): \<^verbatim>\<open>date.min\<close> (0001-01-01) is 1 and \<^verbatim>\<open>date.max\<close>
  (9999-12-31) is 3652059. Dates compare as their ordinals do, and
  \<^verbatim>\<open>d + timedelta(days=n)\<close> adds \<open>n\<close> to the ordinal and raises \<^verbatim>\<open>OverflowError\<close> when
  the result leaves the range of \<^verbatim>\<open>date\<close>.
\<close>

type_synonym date = int

definition max_ordinal :: int where
  "max_ordinal = 3652059"

definition valid_date :: "date \<Rightarrow> bool" where
  "valid_date d = (1 \<le> d \<and> d \<le> max_ordinal)"

datatype py_error = RetrievalError | KeyError | ValueError | OverflowError

definition date_add_days :: "date \<Rightarrow> int \<Rightarrow> py_error + date" where
  "date_add_days d n =
     (let o' = d + n in if 0 < o' \<and> o' \<le> max_ordinal then Inr o' else Inl OverflowError)"

text \<open>\<^verbatim>\<open>m[k]\<close> on a dictionary raises \<^verbatim>\<open>KeyError\<close> for a key that is not there.\<close>

definition lookup :: "('k \<times> 'v) list \<Rightarrow> 'k \<Rightarrow> py_error + 'v" where
  "lookup m k = (case map_of m k of None \<Rightarrow> Inl KeyError | Some v \<Rightarrow> Inr v)"

text \<open>Sequencing: an exception of the first computation skips the second.\<close>

definition bind_err :: "py_error + 'a \<Rightarrow> ('a \<Rightarrow> py_error + 'b) \<Rightarrow> py_error + 'b" where
  "bind_err r f = (case r of Inl e \<Rightarrow> Inl e | Inr x \<Rightarrow> f x)"

section \<open>The series fetcher\<close>

text \<open>
  What the program does not compute itself is a parameter of the model:
  \<^item> \<open>http_get lib series_id api_key observation_start\<close> stands for the request of
    lines 15 to 24 up to \<^verbatim>\<open>data.get("observations", [])\<close>: the list of observation
    objects of the response, or the exception raised by \<^verbatim>\<open>requests.get\<close>,
    \<^verbatim>\<open>raise_for_status\<close> or \<^verbatim>\<open>resp.json\<close>;
  \<^item> \<open>float_of_str lib s\<close> is \<^verbatim>\<open>float(s)\<close> on a string, \<open>None\<close> for \<^verbatim>\<open>ValueError\<close>;
  \<^item> \<open>strptime lib s\<close> is \<^verbatim>\<open>datetime.strptime(s, "%Y-%m-%d").date()\<close>, \<open>None\<close> for
    \<^verbatim>\<open>ValueError\<close>;
  \<^item> \<open>strftime lib d\<close> is \<^verbatim>\<open>d.strftime("%Y-%m-%d")\<close>.

  An observation object of the response is read at two keys: \<^verbatim>\<open>obs.get("value")\<close>, which
  is \<open>None\<close> for an absent key and for JSON \<^verbatim>\<open>null\<close>, and \<^verbatim>\<open>obs["date"]\<close>, which raises
  \<^verbatim>\<open>KeyError\<close> for an absent key. Both are strings when present, as the provider sends
  them.
\<close>

type_synonym observation = "date \<times> pyfloat"

record raw_observation =
  raw_date :: "string option"
  raw_value :: "string option"

record pylib =
  http_get :: "string \<Rightarrow> string \<Rightarrow> string \<Rightarrow> py_error + raw_observation list"
  float_of_str :: "string \<Rightarrow> pyfloat option"
  strptime :: "string \<Rightarrow> date option"
  strftime :: "date \<Rightarrow> string"

text \<open>The loop of lines 26 to 36, with the list \<^verbatim>\<open>observations\<close> built so far.\<close>

fun parse_observations ::
  "pylib \<Rightarrow> raw_observation list \<Rightarrow> observation list \<Rightarrow> py_error + observation list" where
  "parse_observations lib [] observations = Inr observations"
| "parse_observations lib (ob # rest) observations =
     (case raw_value ob of
        None \<Rightarrow> parse_observations lib rest observations
      | Some val \<Rightarrow>
          if val = ''.'' then parse_observations lib rest observations
          else
            (case float_of_str lib val of
               None \<Rightarrow> parse_observations lib rest observations
             | Some v \<Rightarrow>
                 (case raw_date ob of
                    None \<Rightarrow> Inl KeyError
                  | Some ds \<Rightarrow>
                      (case strptime lib ds of
                         None \<Rightarrow> Inl ValueError
                       | Some d \<Rightarrow> parse_observations lib rest (observations @ [(d, v)])))))"

text \<open>
  \<^verbatim>\<open>fetch_series_history\<close>: the request, the loop and the stable sort by date of
  line 38.
\<close>

definition fetch_series_history ::
  "pylib \<Rightarrow> string \<Rightarrow> date \<Rightarrow> string \<Rightarrow> py_error + observation list" where
  "fetch_series_history lib series_id start_date api_key =
     bind_err (http_get lib series_id api_key (strftime lib start_date)) (\<lambda>data.
     bind_err (parse_observations lib data []) (\<lambda>observations.
     Inr (sort_key fst observations)))"

section \<open>The forward-fill cursor\<close>

record cursor =
  obs :: "observation list"
  idx :: nat
  current :: "pyfloat option"

text \<open>
  The \<^verbatim>\<open>while\<close> loop of lines 148 to 150 on the local variables \<^verbatim>\<open>idx\<close> and
  \<^verbatim>\<open>current\<close>; it returns both as they are when the loop ends.
\<close>

function advance :: "observation list \<Rightarrow> date \<Rightarrow> nat \<Rightarrow> pyfloat option \<Rightarrow> nat \<times> pyfloat option" where
  "advance os d i cur =
     (if i < length os \<and> fst (os ! i) \<le> d
      then advance os d (i + 1) (Some (snd (os ! i)))
      else (i, cur))"
  by pat_completeness auto
termination
  by (relation "measure (\<lambda>(os, d, i, cur). length os - i)") auto

text \<open>
  \<^verbatim>\<open>get_value(label, date)\<close> reads and writes the dictionary \<^verbatim>\<open>cursors\<close> of the enclosing
  function: the model takes the dictionary and returns it updated beside the value.
  A dictionary is an association list in insertion order; \<open>AList.update\<close> replaces the
  value of a key in place or appends a new key, as an assignment to \<^verbatim>\<open>m[k]\<close> does.
\<close>

definition get_value ::
  "(string \<times> cursor) list \<Rightarrow> string \<Rightarrow> date \<Rightarrow>
   py_error + (pyfloat option \<times> (string \<times> cursor) list)" where
  "get_value cursors label d =
     bind_err (lookup cursors label) (\<lambda>c.
       (case advance (obs c) d (idx c) (current c) of
          (i, cur) \<Rightarrow> Inr (cur, AList.update label (c\<lparr>idx := i, current := cur\<rparr>) cursors)))"

section \<open>The history builder\<close>

record daily_record =
  date :: string
  risk :: pyfloat

definition series_map :: "(string \<times> string) list" where
  "series_map =
     [(''DGS10'', ''yield_10y''),
      (''DGS2'', ''yield_2y''),
      (''UNRATE'', ''unemployment''),
      (''ICSA'', ''initial_claims''),
      (''A191RL1Q225SBEA'', ''gdp_growth''),
      (''INDPRO'', ''industrial_prod''),
      (''UMCSENT'', ''consumer_sentiment''),
      (''BAMLC0A4CBBB'', ''credit_spread''),
      (''HOUST'', ''housing_starts'')]"

text \<open>
  Step 1 (lines 129 to 134): one fetch per entry of \<^verbatim>\<open>series_map\<close>, in its order; the
  first exception ends the build. The progress lines printed on the way are not
  modelled.
\<close>

fun fetch_all ::
  "pylib \<Rightarrow> (string \<times> string) list \<Rightarrow> date \<Rightarrow> string \<Rightarrow> (string \<times> observation list) list \<Rightarrow>
   py_error + (string \<times> observation list) list" where
  "fetch_all lib [] start_date api_key history_series = Inr history_series"
| "fetch_all lib ((fred_id, label) # rest) start_date api_key history_series =
     bind_err (fetch_series_history lib fred_id start_date api_key) (\<lambda>os.
     fetch_all lib rest start_date api_key (AList.update label os history_series))"

text \<open>Step 2 (lines 137 to 139): a fresh cursor per series.\<close>

definition new_cursor :: "observation list \<Rightarrow> cursor" where
  "new_cursor os = \<lparr>obs = os, idx = 0, current = None\<rparr>"

definition make_cursors :: "(string \<times> observation list) list \<Rightarrow> (string \<times> cursor) list" where
  "make_cursors history_series =
     foldl (\<lambda>cursors (label, os). AList.update label (new_cursor os) cursors) [] history_series"

text \<open>
  The dictionary comprehension of line 160: \<^verbatim>\<open>get_value\<close> for every key of \<^verbatim>\<open>cursors\<close>
  in order, collected in \<^verbatim>\<open>vals\<close>.
\<close>

fun get_values ::
  "(string \<times> cursor) list \<Rightarrow> string list \<Rightarrow> date \<Rightarrow> (string \<times> pyfloat option) list \<Rightarrow>
   py_error + ((string \<times> pyfloat option) list \<times> (string \<times> cursor) list)" where
  "get_values cursors [] d vals = Inr (vals, cursors)"
| "get_values cursors (label # labels) d vals =
     bind_err (get_value cursors label d) (\<lambda>(v, cursors').
     get_values cursors' labels d (AList.update label v vals))"

text \<open>The call of lines 162 to 172: nine subscripts of \<^verbatim>\<open>vals\<close>, then the scorer.\<close>

definition score_day :: "(string \<times> pyfloat option) list \<Rightarrow> py_error + (pyfloat \<times> pyfloat option)" where
  "score_day vals =
     bind_err (lookup vals ''yield_10y'') (\<lambda>yield_10y.
     bind_err (lookup vals ''yield_2y'') (\<lambda>yield_2y.
     bind_err (lookup vals ''unemployment'') (\<lambda>unemployment.
     bind_err (lookup vals ''initial_claims'') (\<lambda>initial_claims.
     bind_err (lookup vals ''gdp_growth'') (\<lambda>gdp_growth.
     bind_err (lookup vals ''industrial_prod'') (\<lambda>industrial_prod.
     bind_err (lookup vals ''consumer_sentiment'') (\<lambda>consumer_sentiment.
     bind_err (lookup vals ''credit_spread'') (\<lambda>credit_spread.
     bind_err (lookup vals ''housing_starts'') (\<lambda>housing_starts.
     Inr (compute_risk yield_10y yield_2y unemployment initial_claims gdp_growth
            industrial_prod consumer_sentiment credit_spread housing_starts))))))))))"

text \<open>
  Step 3 (lines 157 to 180): the loop over the days, with the cursors, the day \<^verbatim>\<open>d\<close>
  and the list \<^verbatim>\<open>results\<close> as its state. The record is appended before the day is
  advanced, and an exception anywhere in the body ends the build without a result.
\<close>

function daily_loop ::
  "pylib \<Rightarrow> (string \<times> cursor) list \<Rightarrow> date \<Rightarrow> date \<Rightarrow> daily_record list \<Rightarrow>
   py_error + daily_record list" where
  "daily_loop lib cursors d end_date results =
     (if d \<le> end_date then
        (case get_values cursors (map fst cursors) d [] of
           Inl e \<Rightarrow> Inl e
         | Inr (vals, cursors') \<Rightarrow>
             (case score_day vals of
                Inl e \<Rightarrow> Inl e
              | Inr (r, yc) \<Rightarrow>
                  (case date_add_days d 1 of
                     Inl e \<Rightarrow> Inl e
                   | Inr d' \<Rightarrow>
                       daily_loop lib cursors' d' end_date
                         (results @ [\<lparr>date = strftime lib d, risk = r\<rparr>]))))
      else Inr results)"
  by pat_completeness auto
termination
  by (relation "measure (\<lambda>(lib, cursors, d, end_date, results). nat (end_date + 1 - d))")
     (auto simp: date_add_days_def Let_def split: if_splits)

definition build_daily_history :: "pylib \<Rightarrow> date \<Rightarrow> date \<Rightarrow> string \<Rightarrow> py_error + daily_record list" where
  "build_daily_history lib start_date end_date api_key =
     bind_err (fetch_all lib series_map start_date api_key []) (\<lambda>history_series.
     daily_loop lib (make_cursors history_series) start_date end_date [])"

text \<open>The nine labels under which \<^verbatim>\<open>build_daily_history\<close> keeps the series.\<close>

definition labels :: "string list" where
  "labels = map snd series_map"

section \<open>Reference definitions for the cursor\<close>

text \<open>
  The specification's description of the cursor's result, written from its words and not
  from the code: the value of the most recent observation dated at or before \<open>d\<close>, absent
  when there is none. Among the observations dated at or before \<open>d\<close> it takes the last
  one in series order, which in a date-ascending series is one of the latest date.
\<close>

definition value_as_of :: "observation list \<Rightarrow> date \<Rightarrow> pyfloat option" where
  "value_as_of os d =
     (case filter (\<lambda>ob. fst ob \<le> d) os of [] \<Rightarrow> None | x # xs \<Rightarrow> Some (snd (last (x # xs))))"

text \<open>
  A sequence of calls \<^verbatim>\<open>get_value(label, d)\<close> for the dates of a list in order, on the
  same dictionary of cursors: the list of the values returned.
\<close>

fun query_all ::
  "(string \<times> cursor) list \<Rightarrow> string \<Rightarrow> date list \<Rightarrow> py_error + pyfloat option list" where
  "query_all cursors label [] = Inr []"
| "query_all cursors label (d # ds) =
     bind_err (get_value cursors label d) (\<lambda>(v, cursors').
     bind_err (query_all cursors' label ds) (\<lambda>vs. Inr (v # vs)))"

section \<open>Reference definitions for the fetcher\<close>

text \<open>A float is finite when it is neither an infinity nor \<open>NaN\<close>.\<close>

definition is_finite :: "pyfloat \<Rightarrow> bool" where
  "is_finite v = (case v of Fin _ \<Rightarrow> True | _ \<Rightarrow> False)"

text \<open>
  The entries that the loop of \<^verbatim>\<open>fetch_series_history\<close> skips: the value is absent or
  \<^verbatim>\<open>null\<close>, it is the provider's sentinel \<^verbatim>\<open>"."\<close>, or \<^verbatim>\<open>float()\<close> rejects it.
\<close>

definition dropped :: "pylib \<Rightarrow> raw_observation \<Rightarrow> bool" where
  "dropped lib ob =
     (case raw_value ob of None \<Rightarrow> True | Some s \<Rightarrow> s = ''.'' \<or> float_of_str lib s = None)"

text \<open>
  What an observation that is not skipped contributes to the result: the date that
  \<^verbatim>\<open>strptime\<close> makes of its \<^verbatim>\<open>"date"\<close> and the float that \<^verbatim>\<open>float()\<close> makes of its
  \<^verbatim>\<open>"value"\<close>.
\<close>

definition reading :: "pylib \<Rightarrow> raw_observation \<Rightarrow> observation" where
  "reading lib ob =
     (the (strptime lib (the (raw_date ob))), the (float_of_str lib (the (raw_value ob))))"

text \<open>
  A well-formed response: every observation that is not skipped carries a \<^verbatim>\<open>"date"\<close>
  that \<^verbatim>\<open>strptime\<close> accepts. (On any other response line 35 raises \<^verbatim>\<open>KeyError\<close> or
  \<^verbatim>\<open>ValueError\<close>.)
\<close>

definition well_formed :: "pylib \<Rightarrow> raw_observation list \<Rightarrow> bool" where
  "well_formed lib data =
     list_all (\<lambda>ob. dropped lib ob
        \<or> (case raw_date ob of None \<Rightarrow> False | Some ds \<Rightarrow> strptime lib ds \<noteq> None)) data"

section \<open>Example environments\<close>

text \<open>
  A concrete environment for the examples: the provider answers every request with
  \<open>response series_id\<close>, and the three library functions are given on the strings and
  dates that the examples use, with the answers of Python there: \<^verbatim>\<open>float("4.1")\<close> is
  4.1, \<^verbatim>\<open>float("nan")\<close> is \<open>NaN\<close> (no \<^verbatim>\<open>ValueError\<close>), \<^verbatim>\<open>float("n/a")\<close> raises
  \<^verbatim>\<open>ValueError\<close>; 2024-01-01 is the ordinal 738886 and 9999-12-31 is 3652059.
\<close>

definition demo_lib :: "(string \<Rightarrow> raw_observation list) \<Rightarrow> pylib" where
  "demo_lib response =
     \<lparr>http_get = (\<lambda>series_id api_key observation_start. Inr (response series_id)),
      float_of_str = (\<lambda>s. if s = ''4.1'' then Some (Fin 4.1)
                          else if s = ''6.5'' then Some (Fin 6.5)
                          else if s = ''nan'' then Some NaN
                          else None),
      strptime = (\<lambda>s. if s = ''2024-01-01'' then Some 738886
                      else if s = ''2024-01-02'' then Some 738887
                      else if s = ''2024-01-03'' then Some 738888
                      else None),
      strftime = (\<lambda>d. if d = 738886 then ''2024-01-01''
                      else if d = 738887 then ''2024-01-02''
                      else if d = 738888 then ''2024-01-03''
                      else if d = 3652059 then ''9999-12-31''
                      else [])\<rparr>"

definition unrate_response :: "string \<Rightarrow> raw_observation list" where
  "unrate_response series_id =
     (if series_id = ''UNRATE''
      then [\<lparr>raw_date = Some ''2024-01-03'', raw_value = Some ''6.5''\<rparr>,
            \<lparr>raw_date = Some ''2024-01-02'', raw_value = Some ''.''\<rparr>,
            \<lparr>raw_date = Some ''2024-01-02'', raw_value = None\<rparr>,
            \<lparr>raw_date = None, raw_value = Some ''n/a''\<rparr>,
            \<lparr>raw_date = Some ''2024-01-01'', raw_value = Some ''4.1''\<rparr>]
      else [])"

definition empty_response :: "string \<Rightarrow> raw_observation list" where
  "empty_response series_id = []"

definition nan_response :: "string \<Rightarrow> raw_observation list" where
  "nan_response series_id = [\<lparr>raw_date = Some ''2024-01-02'', raw_value = Some ''nan''\<rparr>]"


section \<open>Properties of the risk scorer\<close>

lemmas scorer_defs = compute_risk_def yield_curve_def yield_curve_term_def unemployment_term_def
  initial_claims_term_def gdp_term_def consumer_sentiment_term_def credit_spread_term_def
  clamp_risk_def py_min_def py_max_def pf_greater_def pf_sub_def round_half_even_def

lemma clamp_risk_range: "\<exists>r. clamp_risk x = Fin r \<and> 5 \<le> r \<and> r \<le> 95"
  by (cases x) (auto simp: clamp_risk_def py_min_def py_max_def pf_greater_def)

lemma round_half_even_lower: "of_int a \<le> x \<Longrightarrow> a \<le> round_half_even x"
proof -
  assume "of_int a \<le> x"
  then have "a \<le> \<lfloor>x\<rfloor>" by (simp add: le_floor_iff)
  then show ?thesis by (simp add: round_half_even_def Let_def)
qed

lemma round_half_even_upper: "x \<le> of_int b \<Longrightarrow> round_half_even x \<le> b"
  unfolding round_half_even_def Let_def
  by (auto simp: floor_le_iff)

lemma py_round1_range:
  assumes "5 \<le> r" "r \<le> 95"
  shows "\<exists>k. py_round1 (Fin r) = Fin (of_int k / 10) \<and> 50 \<le> k \<and> k \<le> 950"
proof -
  have lo: "of_int 50 \<le> r * 10" and hi: "r * 10 \<le> of_int 950" using assms by simp_all
  have "50 \<le> round_half_even (r * 10)" by (rule round_half_even_lower [OF lo])
  moreover have "round_half_even (r * 10) \<le> 950" by (rule round_half_even_upper [OF hi])
  ultimately show ?thesis by simp
qed

text \<open>
  Claim C1. Whatever the nine inputs are, absent or present, finite, infinite or \<open>NaN\<close>,
  the score that \<^verbatim>\<open>compute_risk\<close> returns is a finite number \<open>k / 10\<close> for an integer
  \<open>k\<close> between 50 and 950: it lies in the closed interval from 5.0 to 95.0 and has at
  most one decimal place.
\<close>

theorem compute_risk_bounded:
  "\<exists>k::int. fst (compute_risk yield_10y yield_2y unemployment initial_claims gdp_growth
       industrial_prod consumer_sentiment credit_spread housing_starts) = Fin (of_int k / 10)
     \<and> 50 \<le> k \<and> k \<le> 950"
proof -
  define x where "x = credit_spread_term credit_spread (consumer_sentiment_term consumer_sentiment
      (gdp_term gdp_growth (initial_claims_term initial_claims (unemployment_term unemployment
      (yield_curve_term (yield_curve yield_10y yield_2y) (Fin 15.0))))))"
  obtain r where r: "clamp_risk x = Fin r" "5 \<le> r" "r \<le> 95"
    using clamp_risk_range by blast
  have "fst (compute_risk yield_10y yield_2y unemployment initial_claims gdp_growth
       industrial_prod consumer_sentiment credit_spread housing_starts) = py_round1 (clamp_risk x)"
    by (simp add: compute_risk_def x_def Let_def)
  with r py_round1_range [OF r(2,3)] show ?thesis by simp
qed

text \<open>
  Claim C4. With all nine inputs absent the score is exactly the base score 15.0 (and the
  spread is undefined).
\<close>

theorem compute_risk_all_absent:
  "compute_risk None None None None None None None None None = (Fin 15.0, None)"
  by (simp add: scorer_defs)

text \<open>
  Claim C5. At a spread of exactly 0.5 none of the three comparisons of the yield-curve
  block holds and the block leaves the score as it is; at exactly -0.5 the comparison
  \<^verbatim>\<open>yc < -0.5\<close> is false, \<^verbatim>\<open>yc < 0\<close> is true and the block adds \<open>|-0.5| * 30 = 15\<close>.
  The last two conjuncts show both through \<^verbatim>\<open>compute_risk\<close> itself, for two yields
  that differ by exactly one half and every other input absent: the scores are 15.0 and
  30.0.
\<close>

theorem yield_curve_boundaries:
  "\<not> pf_less (Fin 0.5) (Fin (- 0.5)) \<and> \<not> pf_less (Fin 0.5) (Fin 0) \<and> \<not> pf_greater (Fin 0.5) (Fin 0.5)
   \<and> yield_curve_term (Some (Fin 0.5)) r = r
   \<and> \<not> pf_less (Fin (- 0.5)) (Fin (- 0.5)) \<and> pf_less (Fin (- 0.5)) (Fin 0)
   \<and> yield_curve_term (Some (Fin (- 0.5))) r = pf_add r (Fin 15)
   \<and> compute_risk (Some (Fin (y + 0.5))) (Some (Fin y)) None None None None None None None
       = (Fin 15.0, Some (Fin 0.5))
   \<and> compute_risk (Some (Fin (y - 0.5))) (Some (Fin y)) None None None None None None None
       = (Fin 30.0, Some (Fin (- 0.5)))"
  by (simp add: scorer_defs)

text \<open>
  Claim C6. The worked example: \<^verbatim>\<open>yield_10y = 3.0\<close>, \<^verbatim>\<open>yield_2y = 1.0\<close>,
  \<^verbatim>\<open>unemployment = 6.0\<close>, \<^verbatim>\<open>initial_claims = 320000\<close>, \<^verbatim>\<open>gdp_growth = -1\<close>,
  \<^verbatim>\<open>consumer_sentiment = 60\<close>, \<^verbatim>\<open>credit_spread = 3.0\<close>, industrial production and
  housing starts absent, gives the score 49.0 (and the spread 2.0).
\<close>

theorem compute_risk_example:
  "compute_risk (Some (Fin 3.0)) (Some (Fin 1.0)) (Some (Fin 6.0)) (Some (Fin 320000))
     (Some (Fin (- 1))) None (Some (Fin 60)) (Some (Fin 3.0)) None = (Fin 49.0, Some (Fin 2.0))"
  by (simp add: scorer_defs)

text \<open>
  Claim C7. Two calls of \<^verbatim>\<open>compute_risk\<close> that agree on the seven scored inputs return
  the same pair of score and spread, whatever \<^verbatim>\<open>industrial_prod\<close> and
  \<^verbatim>\<open>housing_starts\<close> are in either call.
\<close>

theorem compute_risk_ignores_reserved:
  "compute_risk yield_10y yield_2y unemployment initial_claims gdp_growth industrial_prod
     consumer_sentiment credit_spread housing_starts
   = compute_risk yield_10y yield_2y unemployment initial_claims gdp_growth industrial_prod'
     consumer_sentiment credit_spread housing_starts'"
  by (simp add: compute_risk_def)

section \<open>Properties of the cursor\<close>

declare advance.simps [simp del]

lemma advance_idem: "advance os d i cur = (j, cur') \<Longrightarrow> advance os d j cur' = (j, cur')"
proof (induction os d i cur rule: advance.induct)
  case (1 os d i cur)
  show ?case
  proof (cases "i < length os \<and> fst (os ! i) \<le> d")
    case True
    with "1.prems" have "advance os d (i + 1) (Some (snd (os ! i))) = (j, cur')"
      by (simp add: advance.simps [of os d i])
    with True "1.IH" show ?thesis by simp
  next
    case False
    with "1.prems" have "j = i" "cur' = cur" by (simp_all add: advance.simps [of os d i])
    with False show ?thesis by (subst advance.simps) auto
  qed
qed

lemma advance_props:
  "advance os d i cur = (j, cur') \<Longrightarrow>
     i \<le> j \<and> (i \<le> length os \<longrightarrow> j \<le> length os)
     \<and> (\<forall>k. i \<le> k \<and> k < j \<longrightarrow> fst (os ! k) \<le> d)
     \<and> (j < length os \<longrightarrow> d < fst (os ! j))
     \<and> cur' = (if j = i then cur else Some (snd (os ! (j - 1))))"
proof (induction os d i cur rule: advance.induct)
  case (1 os d i cur)
  show ?case
  proof (cases "i < length os \<and> fst (os ! i) \<le> d")
    case True
    with "1.prems" have step: "advance os d (i + 1) (Some (snd (os ! i))) = (j, cur')"
      by (simp add: advance.simps [of os d i])
    from "1.IH" [OF True step]
    have ih: "i + 1 \<le> j" "i + 1 \<le> length os \<longrightarrow> j \<le> length os"
      "\<forall>k. i + 1 \<le> k \<and> k < j \<longrightarrow> fst (os ! k) \<le> d"
      "j < length os \<longrightarrow> d < fst (os ! j)"
      "cur' = (if j = i + 1 then Some (snd (os ! i)) else Some (snd (os ! (j - 1))))"
      by simp_all
    have "\<forall>k. i \<le> k \<and> k < j \<longrightarrow> fst (os ! k) \<le> d"
    proof (intro allI impI)
      fix k assume k: "i \<le> k \<and> k < j"
      show "fst (os ! k) \<le> d"
      proof (cases "k = i")
        case True
        then show ?thesis using \<open>i < length os \<and> fst (os ! i) \<le> d\<close> by simp
      next
        case False
        with k ih(3) show ?thesis by simp
      qed
    qed
    moreover have "cur' = (if j = i then cur else Some (snd (os ! (j - 1))))"
      using ih(1) ih(5) by auto
    ultimately show ?thesis using ih(1,2,4) True by auto
  next
    case False
    with "1.prems" have "j = i" "cur' = cur" by (simp_all add: advance.simps [of os d i])
    with False show ?thesis by auto
  qed
qed

lemma filter_sorted_prefix:
  assumes srt: "sorted (map fst os)" and j: "j \<le> length os"
    and before: "\<forall>k<j. fst (os ! k) \<le> d"
    and at: "j < length os \<longrightarrow> d < fst (os ! j)"
  shows "filter (\<lambda>ob. fst ob \<le> d) os = take j os"
proof -
  have t: "filter (\<lambda>ob. fst ob \<le> d) (take j os) = take j os"
  proof (rule filter_True, clarify)
    fix a b assume "(a, b) \<in> set (take j os)"
    then obtain k where "k < length (take j os)" "take j os ! k = (a, b)"
      by (auto simp: in_set_conv_nth)
    with before j show "fst (a, b) \<le> d" by (metis length_take min.absorb2 nth_take)
  qed
  have dr: "filter (\<lambda>ob. fst ob \<le> d) (drop j os) = []"
  proof (rule filter_False, clarify)
    fix a b assume m: "(a, b) \<in> set (drop j os)" and le: "fst (a, b) \<le> d"
    then obtain k where k: "k < length (drop j os)" "drop j os ! k = (a, b)"
      by (auto simp: in_set_conv_nth)
    then have jl: "j < length os" and kk: "j + k < length os" and ab: "os ! (j + k) = (a, b)"
      by auto
    have "map fst os ! j \<le> map fst os ! (j + k)"
      using srt kk by (intro sorted_nth_mono) auto
    then have "fst (os ! j) \<le> a" using jl kk ab by simp
    with at jl le show False by simp
  qed
  have "filter (\<lambda>ob. fst ob \<le> d) os = filter (\<lambda>ob. fst ob \<le> d) (take j os @ drop j os)"
    by simp
  also have "\<dots> = take j os" unfolding filter_append t dr by simp
  finally show ?thesis .
qed

lemma value_as_of_take:
  assumes "filter (\<lambda>ob. fst ob \<le> d) os = take j os" "j \<le> length os"
  shows "value_as_of os d = (if j = 0 then None else Some (snd (os ! (j - 1))))"
proof (cases "j = 0")
  case True
  with assms show ?thesis by (simp add: value_as_of_def)
next
  case False
  with assms(2) have ne: "take j os \<noteq> []" by auto
  have len: "length (take j os) = j" using assms(2) by simp
  have "last (take j os) = take j os ! (j - 1)"
    using last_conv_nth [OF ne] len by simp
  also have "\<dots> = os ! (j - 1)" using False by simp
  finally have "last (take j os) = os ! (j - 1)" .
  with ne False assms(1) show ?thesis
    by (cases "take j os") (simp_all add: value_as_of_def)
qed


lemma query_all_from:
  assumes srt: "sorted (map fst os)"
  shows "sorted ds \<Longrightarrow> map_of cursors label = Some c \<Longrightarrow> obs c = os \<Longrightarrow> idx c \<le> length os \<Longrightarrow>
     current c = (if idx c = 0 then None else Some (snd (os ! (idx c - 1)))) \<Longrightarrow>
     (\<forall>k<idx c. \<forall>d\<in>set ds. fst (os ! k) \<le> d) \<Longrightarrow>
     query_all cursors label ds = Inr (map (value_as_of os) ds)"
proof (induction ds arbitrary: cursors c)
  case Nil
  then show ?case by simp
next
  case (Cons d ds)
  obtain j cur where adv: "advance (obs c) d (idx c) (current c) = (j, cur)"
    by (cases "advance (obs c) d (idx c) (current c)")
  define c' where "c' = c\<lparr>idx := j, current := cur\<rparr>"
  define cursors' where "cursors' = AList.update label c' cursors"
  have gv: "get_value cursors label d = Inr (cur, cursors')"
    using Cons.prems(2) adv by (simp add: get_value_def bind_err_def lookup_def c'_def cursors'_def)
  from advance_props [OF adv] Cons.prems(3)
  have p: "idx c \<le> j" "idx c \<le> length os \<longrightarrow> j \<le> length os"
    "\<forall>k. idx c \<le> k \<and> k < j \<longrightarrow> fst (os ! k) \<le> d"
    "j < length os \<longrightarrow> d < fst (os ! j)"
    "cur = (if j = idx c then current c else Some (snd (os ! (j - 1))))"
    by simp_all
  have jl: "j \<le> length os" using p(2) Cons.prems(4) by simp
  have before: "\<forall>k<j. fst (os ! k) \<le> d"
  proof (intro allI impI)
    fix k assume "k < j"
    show "fst (os ! k) \<le> d"
    proof (cases "k < idx c")
      case True
      with Cons.prems(6) show ?thesis by simp
    next
      case False
      with \<open>k < j\<close> p(3) show ?thesis by simp
    qed
  qed
  have cur: "cur = (if j = 0 then None else Some (snd (os ! (j - 1))))"
    using p(1) p(5) Cons.prems(5) by auto
  have vd: "value_as_of os d = cur"
    using value_as_of_take [OF filter_sorted_prefix [OF srt jl before p(4)] jl] cur by simp
  have later: "\<forall>k<j. \<forall>d'\<in>set ds. fst (os ! k) \<le> d'"
  proof (intro allI impI ballI)
    fix k d' assume "k < j" "d' \<in> set ds"
    with before have "fst (os ! k) \<le> d" by simp
    moreover have "d \<le> d'" using Cons.prems(1) \<open>d' \<in> set ds\<close> by simp
    ultimately show "fst (os ! k) \<le> d'" by simp
  qed
  have "query_all cursors' label ds = Inr (map (value_as_of os) ds)"
  proof (rule Cons.IH [where c = c'])
    show "sorted ds" using Cons.prems(1) by simp
    show "map_of cursors' label = Some c'" by (simp add: cursors'_def update_conv')
    show "obs c' = os" using Cons.prems(3) by (simp add: c'_def)
    show "idx c' \<le> length os" using jl by (simp add: c'_def)
    show "current c' = (if idx c' = 0 then None else Some (snd (os ! (idx c' - 1))))"
      using cur by (simp add: c'_def)
    show "\<forall>k<idx c'. \<forall>d\<in>set ds. fst (os ! k) \<le> d" using later by (simp add: c'_def)
  qed
  with gv vd show ?case by (simp add: bind_err_def)
qed

lemma value_as_of_None: "value_as_of os d = None \<longleftrightarrow> (\<forall>ob\<in>set os. d < fst ob)"
proof -
  have "value_as_of os d = None \<longleftrightarrow> filter (\<lambda>ob. fst ob \<le> d) os = []"
    by (simp add: value_as_of_def split: list.splits)
  also have "\<dots> \<longleftrightarrow> (\<forall>ob\<in>set os. d < fst ob)"
    by (auto simp: filter_empty_conv)
  finally show ?thesis .
qed

lemma value_as_of_Some:
  assumes srt: "sorted (map fst os)" and v: "value_as_of os d = Some v"
  shows "\<exists>k<length os. snd (os ! k) = v \<and> fst (os ! k) \<le> d
     \<and> (\<forall>j<length os. fst (os ! j) \<le> d \<longrightarrow> j \<le> k \<and> fst (os ! j) \<le> fst (os ! k))"
proof -
  define S where "S = {k. k < length os \<and> fst (os ! k) \<le> d}"
  have fin: "finite S" by (simp add: S_def)
  have "filter (\<lambda>ob. fst ob \<le> d) os \<noteq> []"
    using v by (auto simp: value_as_of_def)
  then obtain ob where "ob \<in> set os" "fst ob \<le> d"
    by (auto simp: filter_empty_conv)
  then have ne: "S \<noteq> {}" by (auto simp: S_def in_set_conv_nth)
  define k where "k = Max S"
  have kS: "k \<in> S" unfolding k_def using fin ne by (rule Max_in)
  then have kl: "k < length os" and kd: "fst (os ! k) \<le> d" by (simp_all add: S_def)
  have mx: "j \<le> k" if "j < length os" "fst (os ! j) \<le> d" for j
    unfolding k_def using fin that by (intro Max_ge) (simp_all add: S_def)
  have mono: "fst (os ! i) \<le> fst (os ! j)" if "i \<le> j" "j < length os" for i j
  proof -
    have "map fst os ! i \<le> map fst os ! j" using srt that by (intro sorted_nth_mono) auto
    with that show ?thesis by simp
  qed
  have before: "\<forall>i<k + 1. fst (os ! i) \<le> d"
  proof (intro allI impI)
    fix i assume "i < k + 1"
    then have "fst (os ! i) \<le> fst (os ! k)" using kl by (intro mono) auto
    with kd show "fst (os ! i) \<le> d" by simp
  qed
  have at: "k + 1 < length os \<longrightarrow> d < fst (os ! (k + 1))"
  proof
    assume l: "k + 1 < length os"
    show "d < fst (os ! (k + 1))"
    proof (rule ccontr)
      assume "\<not> d < fst (os ! (k + 1))"
      then have "k + 1 \<le> k" using l by (intro mx) auto
      then show False by simp
    qed
  qed
  have jl: "k + 1 \<le> length os" using kl by simp
  have "value_as_of os d = Some (snd (os ! k))"
    using value_as_of_take [OF filter_sorted_prefix [OF srt jl before at] jl] by simp
  with v have "snd (os ! k) = v" by simp
  moreover have "\<forall>j<length os. fst (os ! j) \<le> d \<longrightarrow> j \<le> k \<and> fst (os ! j) \<le> fst (os ! k)"
    using mx mono kl by blast
  ultimately show ?thesis using kl kd by blast
qed

text \<open>
  Claim C3. For a cursor freshly made over a date-ascending series and a non-decreasing
  list of query dates, the calls of \<^verbatim>\<open>get_value\<close> in that order return, for each date
  \<open>d\<close>, \<open>value_as_of os d\<close>. That value is absent exactly when no observation is dated
  at or before \<open>d\<close>; when it is present it is the value at the last position \<open>k\<close> whose
  date is at or before \<open>d\<close>, and no observation dated at or before \<open>d\<close> is later than
  that one. In particular it is absent on the empty series and for a date before the
  date of the first observation.
\<close>

theorem get_value_as_of:
  assumes "sorted (map fst os)" and "sorted ds" and "map_of cursors label = Some (new_cursor os)"
  shows "query_all cursors label ds = Inr (map (value_as_of os) ds)
     \<and> (\<forall>d. value_as_of os d = None \<longleftrightarrow> (\<forall>ob\<in>set os. d < fst ob))
     \<and> (\<forall>d v. value_as_of os d = Some v \<longrightarrow>
           (\<exists>k<length os. snd (os ! k) = v \<and> fst (os ! k) \<le> d
              \<and> (\<forall>j<length os. fst (os ! j) \<le> d \<longrightarrow> j \<le> k \<and> fst (os ! j) \<le> fst (os ! k))))
     \<and> (\<forall>d. os = [] \<longrightarrow> value_as_of os d = None)
     \<and> (\<forall>d. os \<noteq> [] \<and> d < fst (hd os) \<longrightarrow> value_as_of os d = None)"
proof -
  have run: "query_all cursors label ds = Inr (map (value_as_of os) ds)"
    by (rule query_all_from [OF assms(1) assms(2) assms(3)]) (simp_all add: new_cursor_def)
  have first: "value_as_of os d = None" if "os \<noteq> []" "d < fst (hd os)" for d
  proof -
    have "\<forall>ob\<in>set os. d < fst ob"
    proof
      fix ob assume "ob \<in> set os"
      then obtain k where k: "k < length os" "os ! k = ob" by (auto simp: in_set_conv_nth)
      have "map fst os ! 0 \<le> map fst os ! k" using assms(1) k(1) by (intro sorted_nth_mono) auto
      then have "fst (hd os) \<le> fst ob" using k that(1) by (simp add: hd_conv_nth)
      with that(2) show "d < fst ob" by simp
    qed
    then show ?thesis by (simp add: value_as_of_None)
  qed
  show ?thesis
    using run value_as_of_None value_as_of_Some [OF assms(1)] first
    by (intro conjI allI impI) (simp_all add: value_as_of_def)
qed

theorem get_value_as_of_witness:
  "sorted (map fst [(2::int, Fin 4.1), (5, Fin 6.5), (5, Fin 4.4), (9, Fin 3.9)])
   \<and> sorted [1, 2, 2, 4, 5, 8, 9, 12 :: int]
   \<and> map_of [(''yield_2y'', new_cursor []),
              (''unemployment'', new_cursor [(2, Fin 4.1), (5, Fin 6.5), (5, Fin 4.4), (9, Fin 3.9)])]
        ''unemployment'' = Some (new_cursor [(2, Fin 4.1), (5, Fin 6.5), (5, Fin 4.4), (9, Fin 3.9)])
   \<and> query_all [(''yield_2y'', new_cursor []),
                 (''unemployment'', new_cursor [(2, Fin 4.1), (5, Fin 6.5), (5, Fin 4.4), (9, Fin 3.9)])]
        ''unemployment'' [1, 2, 2, 4, 5, 8, 9, 12]
      = Inr [None, Some (Fin 4.1), Some (Fin 4.1), Some (Fin 4.1), Some (Fin 4.4), Some (Fin 4.4),
             Some (Fin 3.9), Some (Fin 3.9)]"
proof -
  have s1: "sorted (map fst [(2::int, Fin 4.1), (5, Fin 6.5), (5, Fin 4.4), (9, Fin 3.9)])"
    by simp
  have s2: "sorted [1, 2, 2, 4, 5, 8, 9, 12 :: int]"
    by simp
  have m: "map_of [(''yield_2y'', new_cursor []),
              (''unemployment'', new_cursor [(2, Fin 4.1), (5, Fin 6.5), (5, Fin 4.4), (9, Fin 3.9)])]
        ''unemployment'' = Some (new_cursor [(2, Fin 4.1), (5, Fin 6.5), (5, Fin 4.4), (9, Fin 3.9)])"
    by simp
  from get_value_as_of [OF s1 s2 m]
  have "query_all [(''yield_2y'', new_cursor []),
                 (''unemployment'', new_cursor [(2, Fin 4.1), (5, Fin 6.5), (5, Fin 4.4), (9, Fin 3.9)])]
        ''unemployment'' [1, 2, 2, 4, 5, 8, 9, 12]
      = Inr (map (value_as_of [(2, Fin 4.1), (5, Fin 6.5), (5, Fin 4.4), (9, Fin 3.9)])
               [1, 2, 2, 4, 5, 8, 9, 12])"
    by (rule conjunct1)
  then have "query_all [(''yield_2y'', new_cursor []),
                 (''unemployment'', new_cursor [(2, Fin 4.1), (5, Fin 6.5), (5, Fin 4.4), (9, Fin 3.9)])]
        ''unemployment'' [1, 2, 2, 4, 5, 8, 9, 12]
      = Inr [None, Some (Fin 4.1), Some (Fin 4.1), Some (Fin 4.1), Some (Fin 4.4), Some (Fin 4.4),
             Some (Fin 3.9), Some (Fin 3.9)]"
    by (simp add: value_as_of_def)
  with s1 s2 m show ?thesis by blast
qed

text \<open>
  Claim C8. A call of \<^verbatim>\<open>get_value\<close> that is repeated with the same label and date
  returns the same value, and the second call leaves every cursor as the first call left
  it. This holds for every dictionary of cursors and every date, with no condition on
  the dates queried before.
\<close>

theorem get_value_idempotent:
  "get_value cursors label d = Inr (v, cursors') \<Longrightarrow> get_value cursors' label d = Inr (v, cursors')"
proof -
  assume a: "get_value cursors label d = Inr (v, cursors')"
  then obtain c where c: "map_of cursors label = Some c"
    by (auto simp: get_value_def bind_err_def lookup_def split: option.splits)
  obtain j cur where adv: "advance (obs c) d (idx c) (current c) = (j, cur)"
    by (cases "advance (obs c) d (idx c) (current c)")
  define c' where "c' = c\<lparr>idx := j, current := cur\<rparr>"
  from a c adv have v: "v = cur" and cs: "cursors' = AList.update label c' cursors"
    by (auto simp: get_value_def bind_err_def lookup_def c'_def)
  have look: "map_of cursors' label = Some c'"
    by (simp add: cs update_conv')
  have adv': "advance (obs c') d (idx c') (current c') = (j, cur)"
    using advance_idem [OF adv] by (simp add: c'_def)
  have "c'\<lparr>idx := j, current := cur\<rparr> = c'" by (simp add: c'_def)
  moreover have "AList.update label c' cursors' = cursors'" by (simp add: cs)
  ultimately show ?thesis
    by (simp add: get_value_def bind_err_def lookup_def look adv' v)
qed

theorem get_value_idempotent_witness:
  "get_value [(''unemployment'', new_cursor [(2, Fin 4.1), (5, Fin 6.5)])] ''unemployment'' 3
     = Inr (Some (Fin 4.1), [(''unemployment'', \<lparr>obs = [(2, Fin 4.1), (5, Fin 6.5)], idx = 1, current = Some (Fin 4.1)\<rparr>)])
   \<and> get_value [(''unemployment'', \<lparr>obs = [(2, Fin 4.1), (5, Fin 6.5)], idx = 1, current = Some (Fin 4.1)\<rparr>)] ''unemployment'' 3
     = Inr (Some (Fin 4.1), [(''unemployment'', \<lparr>obs = [(2, Fin 4.1), (5, Fin 6.5)], idx = 1, current = Some (Fin 4.1)\<rparr>)])"
proof -
  have first: "get_value [(''unemployment'', new_cursor [(2, Fin 4.1), (5, Fin 6.5)])] ''unemployment'' 3
     = Inr (Some (Fin 4.1), [(''unemployment'', \<lparr>obs = [(2, Fin 4.1), (5, Fin 6.5)], idx = 1, current = Some (Fin 4.1)\<rparr>)])"
    by (simp add: get_value_def bind_err_def lookup_def new_cursor_def advance.simps)
  from get_value_idempotent [OF first] first show ?thesis by simp
qed

section \<open>Properties of the fetcher\<close>

lemma parse_observations_exact:
  "well_formed lib data \<Longrightarrow>
     parse_observations lib data acc
       = Inr (acc @ map (reading lib) (filter (\<lambda>ob. \<not> dropped lib ob) data))"
proof (induction data arbitrary: acc)
  case Nil
  then show ?case by simp
next
  case (Cons ob rest)
  then have wf: "well_formed lib rest" by (simp add: well_formed_def)
  show ?case
  proof (cases "dropped lib ob")
    case True
    then have "parse_observations lib (ob # rest) acc = parse_observations lib rest acc"
      by (auto simp: dropped_def split: option.splits)
    with Cons.IH [OF wf, of acc] True show ?thesis by simp
  next
    case False
    then obtain s v where s: "raw_value ob = Some s" "s \<noteq> ''.''" "float_of_str lib s = Some v"
      by (auto simp: dropped_def split: option.splits)
    from Cons.prems False obtain ds d where d: "raw_date ob = Some ds" "strptime lib ds = Some d"
      by (auto simp: well_formed_def split: option.splits)
    have r: "reading lib ob = (d, v)" by (simp add: reading_def s d)
    have "parse_observations lib (ob # rest) acc = parse_observations lib rest (acc @ [(d, v)])"
      by (simp add: s d)
    with Cons.IH [OF wf, of "acc @ [(d, v)]"] False r show ?thesis by simp
  qed
qed

lemma reading_parsed:
  assumes "well_formed lib data" and "ob \<in> set data" and "\<not> dropped lib ob"
  shows "\<exists>s ds. raw_value ob = Some s \<and> s \<noteq> ''.'' \<and> raw_date ob = Some ds
     \<and> strptime lib ds = Some (fst (reading lib ob))
     \<and> float_of_str lib s = Some (snd (reading lib ob))"
proof -
  from assms(3) obtain s v where s: "raw_value ob = Some s" "s \<noteq> ''.''" "float_of_str lib s = Some v"
    by (auto simp: dropped_def split: option.splits)
  from assms obtain ds d where d: "raw_date ob = Some ds" "strptime lib ds = Some d"
    by (auto simp: well_formed_def list_all_iff split: option.splits)
  show ?thesis by (simp add: reading_def s d)
qed

text \<open>
  Claim C9, as the code has it. For every well-formed provider response
  \<^verbatim>\<open>fetch_series_history\<close> returns a list, and that list is the stable sort by date of the
  readings of the observations that are not skipped, in the order of the response: its
  dates are ascending, it has one entry for each observation whose raw value is present,
  is not \<^verbatim>\<open>"."\<close> and is accepted by \<^verbatim>\<open>float()\<close>, each with the parsed date and the
  value that \<^verbatim>\<open>float()\<close> returned, and it has no other entry; every observation whose
  raw value is missing, \<^verbatim>\<open>"."\<close> or rejected by \<^verbatim>\<open>float()\<close> is left out. The values of
  the result are all finite exactly when \<^verbatim>\<open>float()\<close> returned a finite number for every
  observation that is kept.
\<close>

theorem fetch_series_history_result:
  assumes "http_get lib series_id api_key (strftime lib start_date) = Inr data"
    and "well_formed lib data"
  shows "\<exists>result. fetch_series_history lib series_id start_date api_key = Inr result
     \<and> result = sort_key fst (map (reading lib) (filter (\<lambda>ob. \<not> dropped lib ob) data))
     \<and> sorted (map fst result)
     \<and> length result = length (filter (\<lambda>ob. \<not> dropped lib ob) data)
     \<and> (\<forall>ob\<in>set data. \<not> dropped lib ob \<longrightarrow>
           reading lib ob \<in> set result
           \<and> (\<exists>s ds. raw_value ob = Some s \<and> s \<noteq> ''.'' \<and> raw_date ob = Some ds
                 \<and> strptime lib ds = Some (fst (reading lib ob))
                 \<and> float_of_str lib s = Some (snd (reading lib ob))))
     \<and> (\<forall>p\<in>set result. \<exists>ob\<in>set data. \<not> dropped lib ob \<and> p = reading lib ob)
     \<and> ((\<forall>p\<in>set result. is_finite (snd p))
          \<longleftrightarrow> (\<forall>ob\<in>set data. \<not> dropped lib ob \<longrightarrow> is_finite (snd (reading lib ob))))"
proof -
  define result where
    "result = sort_key fst (map (reading lib) (filter (\<lambda>ob. \<not> dropped lib ob) data))"
  have run: "fetch_series_history lib series_id start_date api_key = Inr result"
    using assms(1) parse_observations_exact [OF assms(2), of "[]"]
    by (simp add: fetch_series_history_def bind_err_def result_def)
  have srt: "sorted (map fst result)" by (simp add: result_def)
  have len: "length result = length (filter (\<lambda>ob. \<not> dropped lib ob) data)"
    by (simp add: result_def)
  have st: "set result = reading lib ` {ob \<in> set data. \<not> dropped lib ob}"
    by (simp add: result_def)
  have kept: "\<forall>ob\<in>set data. \<not> dropped lib ob \<longrightarrow>
           reading lib ob \<in> set result
           \<and> (\<exists>s ds. raw_value ob = Some s \<and> s \<noteq> ''.'' \<and> raw_date ob = Some ds
                 \<and> strptime lib ds = Some (fst (reading lib ob))
                 \<and> float_of_str lib s = Some (snd (reading lib ob)))"
  proof (intro ballI impI conjI)
    fix ob assume ob: "ob \<in> set data" "\<not> dropped lib ob"
    then show "reading lib ob \<in> set result" unfolding st by simp
    from reading_parsed [OF assms(2) ob]
    show "\<exists>s ds. raw_value ob = Some s \<and> s \<noteq> ''.'' \<and> raw_date ob = Some ds
                 \<and> strptime lib ds = Some (fst (reading lib ob))
                 \<and> float_of_str lib s = Some (snd (reading lib ob))" .
  qed
  have only: "\<forall>p\<in>set result. \<exists>ob\<in>set data. \<not> dropped lib ob \<and> p = reading lib ob"
    unfolding st by auto
  have fin: "(\<forall>p\<in>set result. is_finite (snd p))
          \<longleftrightarrow> (\<forall>ob\<in>set data. \<not> dropped lib ob \<longrightarrow> is_finite (snd (reading lib ob)))"
    unfolding st by auto
  show ?thesis
  proof (intro exI [of _ result] conjI)
    show "fetch_series_history lib series_id start_date api_key = Inr result" by (rule run)
    show "result = sort_key fst (map (reading lib) (filter (\<lambda>ob. \<not> dropped lib ob) data))"
      by (rule result_def)
    show "sorted (map fst result)" by (rule srt)
    show "length result = length (filter (\<lambda>ob. \<not> dropped lib ob) data)" by (rule len)
    show "\<forall>ob\<in>set data. \<not> dropped lib ob \<longrightarrow>
           reading lib ob \<in> set result
           \<and> (\<exists>s ds. raw_value ob = Some s \<and> s \<noteq> ''.'' \<and> raw_date ob = Some ds
                 \<and> strptime lib ds = Some (fst (reading lib ob))
                 \<and> float_of_str lib s = Some (snd (reading lib ob)))" by (rule kept)
    show "\<forall>p\<in>set result. \<exists>ob\<in>set data. \<not> dropped lib ob \<and> p = reading lib ob" by (rule only)
    show "(\<forall>p\<in>set result. is_finite (snd p))
          \<longleftrightarrow> (\<forall>ob\<in>set data. \<not> dropped lib ob \<longrightarrow> is_finite (snd (reading lib ob)))"
      by (rule fin)
  qed
qed

theorem fetch_series_history_result_witness:
  "http_get (demo_lib unrate_response) ''UNRATE'' ''key'' (strftime (demo_lib unrate_response) 738886)
     = Inr (unrate_response ''UNRATE'')
   \<and> well_formed (demo_lib unrate_response) (unrate_response ''UNRATE'')
   \<and> fetch_series_history (demo_lib unrate_response) ''UNRATE'' 738886 ''key''
     = Inr [(738886, Fin 4.1), (738888, Fin 6.5)]
   \<and> sorted (map fst [(738886 :: int, Fin 4.1), (738888, Fin 6.5)])
   \<and> is_finite (Fin 4.1) \<and> is_finite (Fin 6.5)"
proof -
  have h: "http_get (demo_lib unrate_response) ''UNRATE'' ''key'' (strftime (demo_lib unrate_response) 738886)
     = Inr (unrate_response ''UNRATE'')"
    by (simp add: demo_lib_def)
  have wf: "well_formed (demo_lib unrate_response) (unrate_response ''UNRATE'')"
    by (simp add: well_formed_def dropped_def demo_lib_def unrate_response_def)
  have k: "sort_key fst (map (reading (demo_lib unrate_response))
             (filter (\<lambda>ob. \<not> dropped (demo_lib unrate_response) ob) (unrate_response ''UNRATE'')))
           = [(738886, Fin 4.1), (738888, Fin 6.5)]"
    by (simp add: reading_def dropped_def demo_lib_def unrate_response_def)
  from fetch_series_history_result [OF h wf] obtain result where
    r1: "fetch_series_history (demo_lib unrate_response) ''UNRATE'' 738886 ''key'' = Inr result"
    and r2: "result = sort_key fst (map (reading (demo_lib unrate_response))
             (filter (\<lambda>ob. \<not> dropped (demo_lib unrate_response) ob) (unrate_response ''UNRATE'')))"
    and r3: "sorted (map fst result)"
    by blast
  have res: "result = [(738886, Fin 4.1), (738888, Fin 6.5)]" using r2 k by simp
  have run: "fetch_series_history (demo_lib unrate_response) ''UNRATE'' 738886 ''key''
     = Inr [(738886, Fin 4.1), (738888, Fin 6.5)]"
    using r1 res by simp
  have srt: "sorted (map fst [(738886 :: int, Fin 4.1), (738888, Fin 6.5)])"
    using r3 res by simp
  have "is_finite (Fin 4.1) \<and> is_finite (Fin 6.5)" by (simp add: is_finite_def)
  with h wf run srt show ?thesis by (intro conjI) simp_all
qed

text \<open>
  Claim C9 as stated fails: the fetcher has no test for finiteness. \<^verbatim>\<open>float("nan")\<close>
  raises no \<^verbatim>\<open>ValueError\<close>, so an observation whose raw value is the string \<^verbatim>\<open>nan\<close> is
  kept and the result holds a value that is not finite.
\<close>

theorem fetch_series_history_nan:
  "fetch_series_history (demo_lib nan_response) ''DGS10'' 738886 ''key'' = Inr [(738887, NaN)]
   \<and> \<not> is_finite NaN"
  by (simp add: fetch_series_history_def bind_err_def demo_lib_def nan_response_def is_finite_def)

section \<open>Properties of the history builder\<close>

lemma get_value_keys:
  assumes "label \<in> fst ` set cursors"
  shows "\<exists>v cursors'. get_value cursors label d = Inr (v, cursors') \<and> map fst cursors' = map fst cursors"
proof -
  from assms have "map_of cursors label \<noteq> None" by (simp only: map_of_eq_None_iff not_not)
  then obtain c where c: "map_of cursors label = Some c" by blast
  obtain j cur where adv: "advance (obs c) d (idx c) (current c) = (j, cur)"
    by (cases "advance (obs c) d (idx c) (current c)")
  have "get_value cursors label d = Inr (cur, AList.update label (c\<lparr>idx := j, current := cur\<rparr>) cursors)"
    using c adv by (simp add: get_value_def bind_err_def lookup_def)
  moreover have "map fst (AList.update label (c\<lparr>idx := j, current := cur\<rparr>) cursors) = map fst cursors"
    using assms by (simp add: update_keys)
  ultimately show ?thesis by blast
qed

lemma get_values_keys:
  "set ls \<subseteq> fst ` set cursors \<Longrightarrow>
     \<exists>vals' cursors'. get_values cursors ls d vals = Inr (vals', cursors')
        \<and> map fst cursors' = map fst cursors \<and> fst ` set vals' = fst ` set vals \<union> set ls"
proof (induction ls arbitrary: cursors vals)
  case Nil
  then show ?case by simp
next
  case (Cons l ls)
  then have "l \<in> fst ` set cursors" by simp
  from get_value_keys [OF this, of d] obtain v cursors1 where
    gv: "get_value cursors l d = Inr (v, cursors1)" and k1: "map fst cursors1 = map fst cursors"
    by blast
  have "fst ` set cursors1 = fst ` set cursors"
    using k1 by (metis list.set_map)
  with Cons.prems have "set ls \<subseteq> fst ` set cursors1" by simp
  from Cons.IH [OF this, of "AList.update l v vals"] obtain vals' cursors' where
    r: "get_values cursors1 ls d (AList.update l v vals) = Inr (vals', cursors')"
      "map fst cursors' = map fst cursors1"
      "fst ` set vals' = fst ` set (AList.update l v vals) \<union> set ls"
    by blast
  have "get_values cursors (l # ls) d vals = Inr (vals', cursors')"
    using gv r(1) by (simp add: bind_err_def)
  moreover have "fst ` set vals' = fst ` set vals \<union> set (l # ls)"
    using r(3) by (auto simp: dom_update)
  ultimately show ?case using r(2) k1 by simp
qed

lemma lookup_key: "k \<in> fst ` set m \<Longrightarrow> \<exists>v. lookup m k = Inr v"
proof -
  assume "k \<in> fst ` set m"
  then have "map_of m k \<noteq> None" by (simp only: map_of_eq_None_iff not_not)
  then obtain v where "map_of m k = Some v" by blast
  then show ?thesis by (simp add: lookup_def)
qed

lemma labels_mem:
  "''yield_10y'' \<in> set labels" "''yield_2y'' \<in> set labels" "''unemployment'' \<in> set labels"
  "''initial_claims'' \<in> set labels" "''gdp_growth'' \<in> set labels"
  "''industrial_prod'' \<in> set labels" "''consumer_sentiment'' \<in> set labels"
  "''credit_spread'' \<in> set labels" "''housing_starts'' \<in> set labels"
  by (simp_all add: labels_def series_map_def)

lemma score_day_ok:
  assumes "set labels \<subseteq> fst ` set vals"
  shows "\<exists>r yc. score_day vals = Inr (r, yc)"
proof -
  have k: "\<exists>v. lookup vals k = Inr v" if "k \<in> set labels" for k
    using assms that by (intro lookup_key) blast
  obtain v1 where v1: "lookup vals ''yield_10y'' = Inr v1"
    using k [OF labels_mem(1)] by blast
  obtain v2 where v2: "lookup vals ''yield_2y'' = Inr v2"
    using k [OF labels_mem(2)] by blast
  obtain v3 where v3: "lookup vals ''unemployment'' = Inr v3"
    using k [OF labels_mem(3)] by blast
  obtain v4 where v4: "lookup vals ''initial_claims'' = Inr v4"
    using k [OF labels_mem(4)] by blast
  obtain v5 where v5: "lookup vals ''gdp_growth'' = Inr v5"
    using k [OF labels_mem(5)] by blast
  obtain v6 where v6: "lookup vals ''industrial_prod'' = Inr v6"
    using k [OF labels_mem(6)] by blast
  obtain v7 where v7: "lookup vals ''consumer_sentiment'' = Inr v7"
    using k [OF labels_mem(7)] by blast
  obtain v8 where v8: "lookup vals ''credit_spread'' = Inr v8"
    using k [OF labels_mem(8)] by blast
  obtain v9 where v9: "lookup vals ''housing_starts'' = Inr v9"
    using k [OF labels_mem(9)] by blast
  have "score_day vals = Inr (compute_risk v1 v2 v3 v4 v5 v6 v7 v8 v9)"
    unfolding score_day_def v1 v2 v3 v4 v5 v6 v7 v8 v9 by (simp only: bind_err_def sum.case)
  then show ?thesis by (cases "compute_risk v1 v2 v3 v4 v5 v6 v7 v8 v9") auto
qed

lemma daily_loop_exit:
  "end_date < d \<Longrightarrow> daily_loop lib cursors d end_date results = Inr results"
  by (simp add: daily_loop.simps)

lemma daily_loop_days:
  "set labels \<subseteq> fst ` set cursors \<Longrightarrow> 0 \<le> d \<Longrightarrow> d \<le> end_date + 1 \<Longrightarrow> end_date < max_ordinal \<Longrightarrow>
     n = nat (end_date + 1 - d) \<Longrightarrow>
     \<exists>rs. daily_loop lib cursors d end_date results = Inr rs
        \<and> map date rs = map date results @ map (strftime lib) [d..end_date]"
proof (induction n arbitrary: d cursors results)
  case 0
  then have "end_date < d" by simp
  then show ?case by (simp add: daily_loop.simps)
next
  case (Suc n)
  then have le: "d \<le> end_date" by simp
  have "set (map fst cursors) \<subseteq> fst ` set cursors" by simp
  from get_values_keys [OF this, of d "[]"] obtain vals cursors' where
    gv: "get_values cursors (map fst cursors) d [] = Inr (vals, cursors')"
    and kc: "map fst cursors' = map fst cursors"
    and kv: "fst ` set vals = set (map fst cursors)"
    by auto
  have "set labels \<subseteq> fst ` set vals" using kv Suc.prems(1) by simp
  from score_day_ok [OF this] obtain r yc where sc: "score_day vals = Inr (r, yc)" by blast
  have add: "date_add_days d 1 = Inr (d + 1)"
    using Suc.prems(2,4) le by (simp add: date_add_days_def Let_def)
  define results' where "results' = results @ [\<lparr>date = strftime lib d, risk = r\<rparr>]"
  have step: "daily_loop lib cursors d end_date results = daily_loop lib cursors' (d + 1) end_date results'"
    using le gv sc add by (simp add: daily_loop.simps [of lib cursors d] results'_def)
  have "fst ` set cursors' = fst ` set cursors" using kc by (metis list.set_map)
  then have k': "set labels \<subseteq> fst ` set cursors'" using Suc.prems(1) by simp
  have "\<exists>rs. daily_loop lib cursors' (d + 1) end_date results' = Inr rs
        \<and> map date rs = map date results' @ map (strftime lib) [d + 1..end_date]"
    using Suc.prems le by (intro Suc.IH k') auto
  then obtain rs where rs: "daily_loop lib cursors' (d + 1) end_date results' = Inr rs"
    "map date rs = map date results' @ map (strftime lib) [d + 1..end_date]"
    by blast
  have "map date rs = map date results @ map (strftime lib) [d..end_date]"
    using rs(2) le by (simp add: results'_def upto_rec1 [of d end_date])
  with step rs(1) show ?case by simp
qed

lemma fetch_all_keys:
  "fetch_all lib sm start_date api_key hs = Inr hs' \<Longrightarrow> fst ` set hs' = fst ` set hs \<union> snd ` set sm"
proof (induction sm arbitrary: hs)
  case Nil
  then show ?case by simp
next
  case (Cons p sm)
  obtain fred_id label where p: "p = (fred_id, label)" by (cases p)
  with Cons.prems obtain os where
    "fetch_all lib sm start_date api_key (AList.update label os hs) = Inr hs'"
    by (auto simp: bind_err_def split: sum.splits)
  from Cons.IH [OF this] show ?case by (auto simp: p dom_update)
qed

lemma foldl_update_keys:
  "fst ` set (foldl (\<lambda>cursors (label, os). AList.update label (new_cursor os) cursors) acc hs)
     = fst ` set acc \<union> fst ` set hs"
proof (induction hs arbitrary: acc)
  case Nil
  then show ?case by simp
next
  case (Cons p hs)
  show ?case by (cases p) (auto simp: Cons.IH dom_update)
qed

lemma make_cursors_keys: "fst ` set (make_cursors hs) = fst ` set hs"
  by (simp add: make_cursors_def foldl_update_keys)

text \<open>
  The days of the loop. When the nine fetches have succeeded, \<open>start_date\<close> is a date,
  \<open>start_date \<le> end_date\<close> and \<open>end_date\<close> is before \<^verbatim>\<open>date.max\<close>,
  \<^verbatim>\<open>build_daily_history\<close> returns \<open>end_date - start_date + 1\<close> records, and the record
  at position \<open>i\<close> carries the rendering of the day \<open>start_date + i\<close>: one record for
  each day of \<open>[start_date..end_date]\<close> in ascending order, with no gap and no day twice.
\<close>

theorem build_daily_history_days:
  assumes "fetch_all lib series_map start_date api_key [] = Inr history_series"
    and "valid_date start_date" and "start_date \<le> end_date" and "end_date < max_ordinal"
  shows "\<exists>results. build_daily_history lib start_date end_date api_key = Inr results
     \<and> int (length results) = end_date - start_date + 1
     \<and> map date results = map (strftime lib) [start_date..end_date]
     \<and> (\<forall>i<length results. date (results ! i) = strftime lib (start_date + int i))"
proof -
  have "fst ` set history_series = snd ` set series_map"
    using fetch_all_keys [OF assms(1)] by simp
  then have keys: "set labels \<subseteq> fst ` set (make_cursors history_series)"
    by (simp add: make_cursors_keys labels_def)
  have "0 \<le> start_date" using assms(2) by (simp add: valid_date_def)
  from daily_loop_days [OF keys this _ assms(4) refl, of lib "[]"] assms(3)
  obtain rs where rs: "daily_loop lib (make_cursors history_series) start_date end_date [] = Inr rs"
    "map date rs = map (strftime lib) [start_date..end_date]"
    by auto
  have b: "build_daily_history lib start_date end_date api_key = Inr rs"
    using assms(1) rs(1) by (simp add: build_daily_history_def bind_err_def)
  have "length rs = length [start_date..end_date]"
    using rs(2) by (metis length_map)
  then have len: "int (length rs) = end_date - start_date + 1" using assms(3) by simp
  have nth: "date (rs ! i) = strftime lib (start_date + int i)" if "i < length rs" for i
  proof -
    have i: "i < length [start_date..end_date]" using that \<open>length rs = length [start_date..end_date]\<close> by simp
    have "date (rs ! i) = map date rs ! i" using that by simp
    also have "\<dots> = strftime lib ([start_date..end_date] ! i)" using i by (simp add: rs(2))
    also have "[start_date..end_date] ! i = start_date + int i"
      using i by (intro nth_upto) simp
    finally show ?thesis .
  qed
  from b len rs(2) nth show ?thesis by blast
qed


lemmas builder_defs = build_daily_history_def bind_err_def series_map_def fetch_series_history_def
  demo_lib_def make_cursors_def new_cursor_def get_value_def lookup_def score_day_def
  date_add_days_def max_ordinal_def

theorem build_daily_history_days_witness:
  "fetch_all (demo_lib unrate_response) series_map 738886 ''key'' []
     = Inr [(''yield_10y'', []), (''yield_2y'', []),
            (''unemployment'', [(738886, Fin 4.1), (738888, Fin 6.5)]), (''initial_claims'', []),
            (''gdp_growth'', []), (''industrial_prod'', []), (''consumer_sentiment'', []),
            (''credit_spread'', []), (''housing_starts'', [])]
   \<and> valid_date 738886 \<and> (738886 :: int) \<le> 738888 \<and> 738888 < max_ordinal
   \<and> build_daily_history (demo_lib unrate_response) 738886 738888 ''key''
       = Inr [\<lparr>date = ''2024-01-01'', risk = Fin 15.0\<rparr>,
              \<lparr>date = ''2024-01-02'', risk = Fin 15.0\<rparr>,
              \<lparr>date = ''2024-01-03'', risk = Fin 27.0\<rparr>]
   \<and> int (length [\<lparr>date = ''2024-01-01'', risk = Fin 15.0\<rparr>,
              \<lparr>date = ''2024-01-02'', risk = Fin 15.0\<rparr>,
              \<lparr>date = ''2024-01-03'', risk = Fin 27.0\<rparr>]) = 738888 - 738886 + 1"
proof -
  have f: "fetch_all (demo_lib unrate_response) series_map 738886 ''key'' []
     = Inr [(''yield_10y'', []), (''yield_2y'', []),
            (''unemployment'', [(738886, Fin 4.1), (738888, Fin 6.5)]), (''initial_claims'', []),
            (''gdp_growth'', []), (''industrial_prod'', []), (''consumer_sentiment'', []),
            (''credit_spread'', []), (''housing_starts'', [])]"
    by (simp add: builder_defs unrate_response_def)
  have v: "valid_date 738886" by (simp add: valid_date_def max_ordinal_def)
  have le: "(738886 :: int) \<le> 738888" by simp
  have lt: "738888 < max_ordinal" by (simp add: max_ordinal_def)
  have run: "build_daily_history (demo_lib unrate_response) 738886 738888 ''key''
       = Inr [\<lparr>date = ''2024-01-01'', risk = Fin 15.0\<rparr>,
              \<lparr>date = ''2024-01-02'', risk = Fin 15.0\<rparr>,
              \<lparr>date = ''2024-01-03'', risk = Fin 27.0\<rparr>]"
    unfolding build_daily_history_def f
    by (simp add: bind_err_def make_cursors_def new_cursor_def get_value_def lookup_def
        score_day_def date_add_days_def max_ordinal_def daily_loop.simps advance.simps
        demo_lib_def scorer_defs)
  from build_daily_history_days [OF f v le lt] obtain results where
    "build_daily_history (demo_lib unrate_response) 738886 738888 ''key'' = Inr results"
    "int (length results) = 738888 - 738886 + 1"
    by blast
  with run have "int (length [\<lparr>date = ''2024-01-01'', risk = Fin 15.0\<rparr>,
              \<lparr>date = ''2024-01-02'', risk = Fin 15.0\<rparr>,
              \<lparr>date = ''2024-01-03'', risk = Fin 27.0\<rparr>]) = 738888 - 738886 + 1"
    by simp
  with f v le lt run show ?thesis by blast
qed


text \<open>
  Claim C2 says that for every \<open>start_date \<le> end_date\<close> the builder returns one record
  for each day of the inclusive range, as the docstring of \<^verbatim>\<open>build_daily_history\<close> says
  too. The code does so for every range that ends before \<^verbatim>\<open>date.max\<close> and fails on the
  last day that a \<^verbatim>\<open>date\<close> can hold: when \<open>end_date\<close> is \<^verbatim>\<open>date.max\<close> (9999-12-31, the
  ordinal 3652059) the loop appends the record of that day and then evaluates
  \<^verbatim>\<open>d += timedelta(days=1)\<close>, which raises \<^verbatim>\<open>OverflowError\<close>, so the call ends with the
  exception and the records are lost. Here \<open>start_date = end_date = date.max\<close> and
  the provider has no observations; the claim asks for one record.
\<close>

theorem build_daily_history_last_day:
  "valid_date 3652059 \<and> (3652059 :: int) \<le> 3652059
   \<and> build_daily_history (demo_lib empty_response) 3652059 3652059 ''key'' = Inl OverflowError"
proof -
  have f: "fetch_all (demo_lib empty_response) series_map 3652059 ''key'' []
     = Inr [(''yield_10y'', []), (''yield_2y'', []), (''unemployment'', []), (''initial_claims'', []),
            (''gdp_growth'', []), (''industrial_prod'', []), (''consumer_sentiment'', []),
            (''credit_spread'', []), (''housing_starts'', [])]"
    by (simp add: builder_defs empty_response_def)
  show ?thesis
    unfolding build_daily_history_def f
    by (simp add: valid_date_def bind_err_def make_cursors_def new_cursor_def get_value_def lookup_def
        score_day_def date_add_days_def max_ordinal_def daily_loop.simps advance.simps)
qed






end
